theory Spec2Isabelle
  imports Main
begin

section \<open>Data model of \<open>useListTransform.ts\<close>\<close>

text \<open>
  The hook is generic in the list item type (\<open>'a\<close>) and in the transform data, an
  object. An object is modelled by its own properties: a map from keys \<open>'k\<close> to
  values \<open>'v\<close>. The optional field \<open>data?: TTransformData\<close> can hold
  \<open>undefined\<close>, and at run time \<open>null\<close>; the source tests it with
  \<open>state.data == null\<close>, which is true of both.
\<close>

datatype ('k, 'v) tdata = DUndefined | DNull | DObj "'k \<rightharpoonup> 'v"

text \<open>
  What a stage can hand back once it has settled: an array, or a function used as the
  callback of \<open>Array.prototype.filter\<close>, which is called with the item and its index
  (\<open>MapTransformerReturnType\<close>). The working variable \<open>transformedList\<close> of
  \<open>transformList\<close> holds such a value; TypeScript types it as an array, the
  assignments of the source do not check it. Values of other kinds, which the types
  \<open>Transformer\<close> and \<open>MapTransformer\<close> do not name, are left out.
\<close>

datatype 'a jsval = Arr "'a list" | Fun "'a \<Rightarrow> nat \<Rightarrow> bool"

text \<open>
  A caught exception \<open>ex\<close>: a \<open>TypeError\<close> raised by the runtime when a value
  that is not a function is called, or whatever a stage threw or rejected with.
\<close>

datatype 'e jserr = TypeError | Thrown 'e

text \<open>
  \<open>TransformState\<close> (lines 46-51). \<open>list\<close> is \<open>None\<close> for the \<open>null\<close>
  that \<open>SET_ERROR\<close> stores, \<open>error\<close> is \<open>None\<close> for \<open>undefined\<close>.
\<close>

record ('a, 'k, 'v, 'e) TransformState =
  data :: "('k, 'v) tdata"
  list :: "'a jsval option"
  loading :: bool
  error :: "'e jserr option"

text \<open>\<open>Action\<close> (lines 53-59), one constructor for each action type.\<close>

datatype ('a, 'k, 'v, 'e) Action =
    SET_LIST "'a jsval"
  | SET_DATA "('k, 'v) tdata"
  | UPDATE_DATA "('k, 'v) tdata"
  | RESET_DATA "('k, 'v) tdata"
  | SET_LOADING bool
  | SET_ERROR "'e jserr"

text \<open>
  Object spread \<open>{...x}\<close> copies the own properties of \<open>x\<close>; spreading
  \<open>undefined\<close> or \<open>null\<close> copies nothing.
\<close>

fun spread :: "('k, 'v) tdata \<Rightarrow> ('k \<rightharpoonup> 'v)" where
  "spread DUndefined = Map.empty"
| "spread DNull = Map.empty"
| "spread (DObj m) = m"

text \<open>
  \<open>transformReducer\<close> (lines 61-112). The \<open>default\<close> branch of the switch is not
  reachable from an \<open>Action\<close>. In \<open>{...state.data, ...action.payload}\<close> the later
  spread wins on a shared key, as \<open>++\<close> on maps does.
\<close>

fun transformReducer ::
  "('a, 'k, 'v, 'e) TransformState \<Rightarrow> ('a, 'k, 'v, 'e) Action \<Rightarrow> ('a, 'k, 'v, 'e) TransformState"
where
  "transformReducer s (SET_LIST p) = s\<lparr>list := Some p, loading := False\<rparr>"
| "transformReducer s (SET_DATA p) = s\<lparr>data := p\<rparr>"
| "transformReducer s (UPDATE_DATA p) = s\<lparr>data := DObj (spread (data s) ++ spread p)\<rparr>"
| "transformReducer s (RESET_DATA p) = s\<lparr>data := p\<rparr>"
| "transformReducer s (SET_LOADING p) = s\<lparr>loading := p, error := None\<rparr>"
| "transformReducer s (SET_ERROR p) = s\<lparr>error := Some p, list := None, loading := False\<rparr>"

section \<open>Stages, options and the hook's cells\<close>

text \<open>
  \<open>TransformerParams\<close> (lines 4-8). The fields \<open>list\<close> and \<open>data\<close> are
  named \<open>p_list\<close> and \<open>p_data\<close> here, the state record has the plain names.
\<close>

record ('a, 'k, 'v) TransformerParams =
  p_list :: "'a jsval"
  p_data :: "('k, 'v) tdata"
  previousData :: "('k, 'v) tdata"

text \<open>
  A promise is modelled by what it settles to; when it settles is decided by whoever
  resumes the suspended run (\<open>resume\<close> below), and a promise that stays pending is a
  run that is never resumed. A call of a stage either throws, returns a value, or
  returns a promise.
\<close>

datatype ('a, 'e) settled = Resolves "'a jsval" | Rejects "'e jserr"

datatype ('a, 'e) outcome =
    Throws "'e jserr"
  | Returns "'a jsval"
  | ReturnsPromise "('a, 'e) settled"

text \<open>
  An element of the pipeline array: a function of the parameters, or \<open>undefined\<close>
  (what \<open>options.transform\<close> is when the option is omitted).
\<close>

datatype ('a, 'k, 'v, 'e) stage =
    StageUndefined
  | Stage "('a, 'k, 'v) TransformerParams \<Rightarrow> ('a, 'e) outcome"

text \<open>\<open>options.transform\<close>: one value, or an array of them.\<close>

datatype ('a, 'k, 'v, 'e) transform_option =
    Single "('a, 'k, 'v, 'e) stage"
  | Many "('a, 'k, 'v, 'e) stage list"

text \<open>\<open>toArray\<close> (lines 118-123).\<close>

fun toArray :: "('a, 'k, 'v, 'e) transform_option \<Rightarrow> ('a, 'k, 'v, 'e) stage list" where
  "toArray (Many ts) = ts"
| "toArray (Single t) = [t]"

text \<open>
  \<open>UseTransformOptions\<close> (lines 27-37); \<open>options.list\<close> is \<open>opt_list\<close>. The
  three callbacks are not fields: every call of \<open>onLoading\<close>, \<open>onError\<close> and
  \<open>onListUpdate\<close> (the caller's function, or \<open>noop\<close>) is appended to the log
  \<open>calls\<close> of the hook, oldest first. A callback is taken to return normally; it
  cannot reach \<open>transformListId\<close>, which only \<open>transformList\<close> writes.
\<close>

record ('a, 'k, 'v, 'e) UseTransformOptions =
  opt_list :: "'a list"
  transformData :: "('k, 'v) tdata"
  transform :: "('a, 'k, 'v, 'e) transform_option"
  throwOnError :: bool

datatype ('a, 'e) call = OnLoading bool | OnError "'e jserr" | OnListUpdate "'a jsval"

text \<open>
  Everything one instance of the hook holds: the reducer state, the options of the
  latest render, the two refs \<open>transformListId\<close> and \<open>transforms\<close>, and the value
  of \<open>usePrevious(state.data)\<close> (imported from \<open>./usePrevious\<close>; it is only
  passed on to the stages, and is supplied with each render). \<open>calls\<close> and \<open>stage_calls\<close> observe
  the effects: the log of callback invocations and the number of times a stage
  function has been called.
\<close>

record ('a, 'k, 'v, 'e) hook =
  state :: "('a, 'k, 'v, 'e) TransformState"
  options :: "('a, 'k, 'v, 'e) UseTransformOptions"
  transformListId :: nat
  transforms :: "('a, 'k, 'v, 'e) stage list"
  prevTransformData :: "('k, 'v) tdata"
  calls :: "('a, 'e) call list"
  stage_calls :: nat

text \<open>
  A run of \<open>transformList\<close> suspended at \<open>await result\<close> (line 241): its
  \<open>currentTransformId\<close>, the \<open>state.data\<close> and \<open>prevTransformData\<close> of its
  closure, the promise it waits for, and the stages the iterator has not yet produced.
\<close>

record ('a, 'k, 'v, 'e) run =
  run_id :: nat
  run_data :: "('k, 'v) tdata"
  run_prev :: "('k, 'v) tdata"
  awaited :: "('a, 'e) settled"
  rest :: "('a, 'k, 'v, 'e) stage list"

section \<open>The operations of the hook\<close>

text \<open>
  \<open>++transformListId.current\<close> on a JavaScript number: integers are exact up to
  \<open>2^53\<close>, where adding one rounds back to \<open>2^53\<close>.
\<close>

definition js_increment :: "nat \<Rightarrow> nat" where
  "js_increment n = (if n < 2 ^ 53 then n + 1 else n)"

definition dispatch ::
  "('a, 'k, 'v, 'e) Action \<Rightarrow> ('a, 'k, 'v, 'e) hook \<Rightarrow> ('a, 'k, 'v, 'e) hook" where
  "dispatch a h = h\<lparr>state := transformReducer (state h) a\<rparr>"

definition notify :: "('a, 'e) call \<Rightarrow> ('a, 'k, 'v, 'e) hook \<Rightarrow> ('a, 'k, 'v, 'e) hook" where
  "notify c h = h\<lparr>calls := calls h @ [c]\<rparr>"

text \<open>\<open>isLatestTransform\<close> (lines 159-164).\<close>

definition isLatestTransform :: "('a, 'k, 'v, 'e) hook \<Rightarrow> nat \<Rightarrow> bool" where
  "isLatestTransform h listId = (transformListId h = listId)"

text \<open>
  \<open>setTransform\<close>, \<open>updateTransform\<close>, \<open>resetTransform\<close> (lines 166-180).
  The first two close over \<open>dispatch\<close> only. \<open>resetTransform\<close> is created by
  \<open>useCallback\<close> in a render and closes over the \<open>options\<close> of that render:
  its first argument. With the dependency \<open>[options.transformData]\<close> a render
  returns either a new handle over its own options or the handle of an earlier render
  whose \<open>options.transformData\<close> is the same object; in both cases the handle a
  render returns resets to the \<open>transformData\<close> of that render, and a handle kept
  from an earlier render resets to the \<open>transformData\<close> of the earlier one.
\<close>

definition setTransform :: "('k, 'v) tdata \<Rightarrow> ('a, 'k, 'v, 'e) hook \<Rightarrow> ('a, 'k, 'v, 'e) hook" where
  "setTransform d h = dispatch (SET_DATA d) h"

definition updateTransform :: "('k, 'v) tdata \<Rightarrow> ('a, 'k, 'v, 'e) hook \<Rightarrow> ('a, 'k, 'v, 'e) hook" where
  "updateTransform d h = dispatch (UPDATE_DATA d) h"

definition resetTransform ::
  "('a, 'k, 'v, 'e) UseTransformOptions \<Rightarrow> ('a, 'k, 'v, 'e) hook \<Rightarrow> ('a, 'k, 'v, 'e) hook" where
  "resetTransform opts h = dispatch (RESET_DATA (transformData opts)) h"

text \<open>\<open>setList\<close> (lines 182-193).\<close>

definition setList :: "'a jsval \<Rightarrow> nat \<Rightarrow> ('a, 'k, 'v, 'e) hook \<Rightarrow> ('a, 'k, 'v, 'e) hook" where
  "setList payload transId h =
     (if \<not> isLatestTransform h transId then h
      else dispatch (SET_LIST payload)
             (notify (OnListUpdate payload) (notify (OnLoading False) h)))"

text \<open>\<open>setLoading\<close> (lines 195-201).\<close>

definition setLoading :: "bool \<Rightarrow> ('a, 'k, 'v, 'e) hook \<Rightarrow> ('a, 'k, 'v, 'e) hook" where
  "setLoading payload h = dispatch (SET_LOADING payload) (notify (OnLoading payload) h)"

text \<open>\<open>setError\<close> (lines 203-212).\<close>

definition setError :: "'e jserr \<Rightarrow> nat \<Rightarrow> ('a, 'k, 'v, 'e) hook \<Rightarrow> ('a, 'k, 'v, 'e) hook" where
  "setError payload transId h =
     (let h' = notify (OnError payload) h
      in if \<not> isLatestTransform h' transId then h' else dispatch (SET_ERROR payload) h')"

text \<open>
  \<open>Array.prototype.filter\<close> with a callback that receives the item and its index.
\<close>

fun filter_from :: "nat \<Rightarrow> ('a \<Rightarrow> nat \<Rightarrow> bool) \<Rightarrow> 'a list \<Rightarrow> 'a list" where
  "filter_from i g [] = []"
| "filter_from i g (x # xs) =
     (if g x i then x # filter_from (Suc i) g xs else filter_from (Suc i) g xs)"

definition js_filter :: "('a \<Rightarrow> nat \<Rightarrow> bool) \<Rightarrow> 'a list \<Rightarrow> 'a list" where
  "js_filter g xs = filter_from 0 g xs"

text \<open>
  The call \<open>transform({...})\<close> of line 234: calling \<open>undefined\<close> throws a
  \<open>TypeError\<close>. \<open>counted\<close> records that a stage function has run.
\<close>

fun invoke ::
  "('a, 'k, 'v, 'e) stage \<Rightarrow> ('a, 'k, 'v) TransformerParams \<Rightarrow> ('a, 'e) outcome" where
  "invoke StageUndefined p = Throws TypeError"
| "invoke (Stage f) p = f p"

fun counted :: "('a, 'k, 'v, 'e) stage \<Rightarrow> ('a, 'k, 'v, 'e) hook \<Rightarrow> ('a, 'k, 'v, 'e) hook" where
  "counted StageUndefined h = h"
| "counted (Stage f) h = h\<lparr>stage_calls := stage_calls h + 1\<rparr>"

text \<open>
  The \<open>for\<close> loop of \<open>transformList\<close> (lines 228-254) from an iteration on, with
  working list \<open>w\<close> and remaining stages. It returns the hook and, when the run
  stops at \<open>await\<close>, the suspended run. The branches follow the source: a thrown
  exception is caught (line 248); a promise is awaited; a function is passed to
  \<open>transformedList.filter\<close>, which throws a \<open>TypeError\<close> inside the \<open>try\<close>
  when the working value is itself a function (it has no \<open>filter\<close>); anything
  else is assigned. The array handed to a stage is not changed in place by it.
\<close>

fun loop ::
  "nat \<Rightarrow> ('k, 'v) tdata \<Rightarrow> ('k, 'v) tdata \<Rightarrow> 'a jsval \<Rightarrow> ('a, 'k, 'v, 'e) stage list
     \<Rightarrow> ('a, 'k, 'v, 'e) hook \<Rightarrow> ('a, 'k, 'v, 'e) hook \<times> ('a, 'k, 'v, 'e) run option"
where
  "loop tid d prev w [] h = (setList w tid h, None)"
| "loop tid d prev w (t # ts) h =
     (if \<not> isLatestTransform h tid then (h, None)
      else
        (let h' = counted t h in
         case invoke t \<lparr>p_list = w, p_data = d, previousData = prev\<rparr> of
           Throws ex \<Rightarrow> (setError ex tid h', None)
         | ReturnsPromise p \<Rightarrow>
             (h', Some \<lparr>run_id = tid, run_data = d, run_prev = prev, awaited = p, rest = ts\<rparr>)
         | Returns (Fun g) \<Rightarrow>
             (case w of
                Arr xs \<Rightarrow> loop tid d prev (Arr (js_filter g xs)) ts h'
              | Fun _ \<Rightarrow> (setError TypeError tid h', None))
         | Returns (Arr ys) \<Rightarrow> loop tid d prev (Arr ys) ts h'))"

text \<open>
  The continuation of a suspended run when its promise settles: a rejection is caught
  (lines 248-251), a resolution is assigned to \<open>transformedList\<close> as it is (line
  242) and the loop goes on with the next stage.
\<close>

definition resume ::
  "('a, 'k, 'v, 'e) run \<Rightarrow> ('a, 'k, 'v, 'e) hook
     \<Rightarrow> ('a, 'k, 'v, 'e) hook \<times> ('a, 'k, 'v, 'e) run option" where
  "resume r h =
     (case awaited r of
        Rejects ex \<Rightarrow> (setError ex (run_id r) h, None)
      | Resolves v \<Rightarrow> loop (run_id r) (run_data r) (run_prev r) v (rest r) h)"

text \<open>\<open>state.data == null\<close>.\<close>

fun is_nullish :: "('k, 'v) tdata \<Rightarrow> bool" where
  "is_nullish DUndefined = True"
| "is_nullish DNull = True"
| "is_nullish (DObj m) = False"

text \<open>
  \<open>transformList\<close> (lines 216-263) up to its first suspension or its end. The
  effect runs the closure of the latest render, whose \<open>state.data\<close>,
  \<open>options.list\<close> and \<open>prevTransformData\<close> are those of the hook at that
  moment. \<open>[...options.list]\<close> is a copy with the same items.
\<close>

definition transformList ::
  "('a, 'k, 'v, 'e) hook \<Rightarrow> ('a, 'k, 'v, 'e) hook \<times> ('a, 'k, 'v, 'e) run option" where
  "transformList h =
     (let h1 = h\<lparr>transformListId := js_increment (transformListId h)\<rparr>;
          currentTransformId = transformListId h1;
          h2 = setLoading True h1
      in if is_nullish (data (state h))
         then (setList (Arr (opt_list (options h))) currentTransformId h2, None)
         else loop currentTransformId (data (state h)) (prevTransformData h)
                (Arr (opt_list (options h))) (transforms h2) h2)"

text \<open>
  The first render (lines 133-157) and a later render with new options. On every
  render the effect of lines 265-267 stores \<open>toArray(options.transform)\<close> in the ref.
  The effect of lines 269-272 calls \<open>transformList\<close> on mount and whenever
  \<open>state.data\<close> or \<open>options.list\<close> is a different object than before; object
  identity is not a property of the values here, so after a render the run is a step
  of its own.
\<close>

definition init ::
  "('a, 'k, 'v, 'e) UseTransformOptions \<Rightarrow> ('k, 'v) tdata \<Rightarrow> ('a, 'k, 'v, 'e) hook" where
  "init opts prev =
     \<lparr>state = \<lparr>data = transformData opts, list = Some (Arr (opt_list opts)),
               loading = False, error = None\<rparr>,
      options = opts, transformListId = 0, transforms = toArray (transform opts),
      prevTransformData = prev, calls = [], stage_calls = 0\<rparr>"

definition rerender ::
  "('a, 'k, 'v, 'e) UseTransformOptions \<Rightarrow> ('k, 'v) tdata \<Rightarrow> ('a, 'k, 'v, 'e) hook
     \<Rightarrow> ('a, 'k, 'v, 'e) hook" where
  "rerender opts prev h =
     h\<lparr>options := opts, prevTransformData := prev, transforms := toArray (transform opts)\<rparr>"

definition mount ::
  "('a, 'k, 'v, 'e) UseTransformOptions \<Rightarrow> ('k, 'v) tdata
     \<Rightarrow> ('a, 'k, 'v, 'e) hook \<times> ('a, 'k, 'v, 'e) run option" where
  "mount opts prev = transformList (init opts prev)"

section \<open>Runs, histories and the values used in the test-suite\<close>

text \<open>
  What the loop has in \<open>transformedList\<close> after a prefix of stages, when every one
  of them returns synchronously and none fails; \<open>None\<close> otherwise. It is related
  to \<open>loop\<close> by lemma \<open>loop_sync_prefix\<close>.
\<close>

fun sync_stages ::
  "('k, 'v) tdata \<Rightarrow> ('k, 'v) tdata \<Rightarrow> 'a jsval \<Rightarrow> ('a, 'k, 'v, 'e) stage list \<Rightarrow> 'a jsval option"
where
  "sync_stages d prev w [] = Some w"
| "sync_stages d prev w (t # ts) =
     (case invoke t \<lparr>p_list = w, p_data = d, previousData = prev\<rparr> of
        Returns (Arr ys) \<Rightarrow> sync_stages d prev (Arr ys) ts
      | Returns (Fun g) \<Rightarrow>
          (case w of Arr xs \<Rightarrow> sync_stages d prev (Arr (js_filter g xs)) ts | Fun _ \<Rightarrow> None)
      | _ \<Rightarrow> None)"

text \<open>The calls a component can make on the returned \<open>setData\<close> and \<open>updateData\<close>.\<close>

datatype ('k, 'v) mutation = SetData "('k, 'v) tdata" | UpdateData "('k, 'v) tdata"

fun mutate :: "('k, 'v) mutation \<Rightarrow> ('a, 'k, 'v, 'e) hook \<Rightarrow> ('a, 'k, 'v, 'e) hook" where
  "mutate (SetData d) h = setTransform d h"
| "mutate (UpdateData p) h = updateTransform p h"

text \<open>
  One instance of the hook together with the runs that are suspended at their
  \<open>await\<close> and the options of every render so far, the mount first. A history is a
  list of events: a render with (possibly new) options, the effect that starts a run,
  the settling of the promise of the \<open>i\<close>-th suspended run, the calls of
  \<open>setData\<close> and \<open>updateData\<close>, and the call of the \<open>resetData\<close> handle
  that the \<open>i\<close>-th render returned (a component may keep a handle of an earlier
  render). Runs settle in any order.
\<close>

record ('a, 'k, 'v, 'e) system =
  inst :: "('a, 'k, 'v, 'e) hook"
  pending :: "('a, 'k, 'v, 'e) run list"
  rendered :: "('a, 'k, 'v, 'e) UseTransformOptions list"

datatype ('a, 'k, 'v, 'e) event =
    Render "('a, 'k, 'v, 'e) UseTransformOptions" "('k, 'v) tdata"
  | RunEffect
  | Settle nat
  | Call "('k, 'v) mutation"
  | CallReset nat

fun suspended :: "'r option \<Rightarrow> 'r list" where
  "suspended None = []"
| "suspended (Some r) = [r]"

fun step :: "('a, 'k, 'v, 'e) event \<Rightarrow> ('a, 'k, 'v, 'e) system \<Rightarrow> ('a, 'k, 'v, 'e) system" where
  "step (Render opts prev) s =
     s\<lparr>inst := rerender opts prev (inst s), rendered := rendered s @ [opts]\<rparr>"
| "step RunEffect s =
     s\<lparr>inst := fst (transformList (inst s)),
       pending := pending s @ suspended (snd (transformList (inst s)))\<rparr>"
| "step (Settle i) s =
     (if i < length (pending s)
      then s\<lparr>inst := fst (resume (pending s ! i) (inst s)),
             pending := take i (pending s) @ suspended (snd (resume (pending s ! i) (inst s)))
                         @ drop (Suc i) (pending s)\<rparr>
      else s)"
| "step (Call m) s = s\<lparr>inst := mutate m (inst s)\<rparr>"
| "step (CallReset i) s =
     (if i < length (rendered s)
      then s\<lparr>inst := resetTransform (rendered s ! i) (inst s)\<rparr>
      else s)"

definition start ::
  "('a, 'k, 'v, 'e) UseTransformOptions \<Rightarrow> ('k, 'v) tdata \<Rightarrow> ('a, 'k, 'v, 'e) system" where
  "start opts prev =
     \<lparr>inst = fst (mount opts prev), pending = suspended (snd (mount opts prev)),
      rendered = [opts]\<rparr>"

definition exec ::
  "('a, 'k, 'v, 'e) event list \<Rightarrow> ('a, 'k, 'v, 'e) system \<Rightarrow> ('a, 'k, 'v, 'e) system" where
  "exec evs s = fold step evs s"

text \<open>Every suspended run carries an identifier that the counter has reached.\<close>

definition issued :: "('a, 'k, 'v, 'e) system \<Rightarrow> bool" where
  "issued s = list_all (\<lambda>r. run_id r \<le> transformListId (inst s)) (pending s)"

text \<open>An event that leaves the \<open>transformData\<close> option at \<open>d\<close>.\<close>

fun keeps_transformData ::
  "('k, 'v) tdata \<Rightarrow> ('a, 'k, 'v, 'e) event \<Rightarrow> bool" where
  "keeps_transformData d (Render opts prev) = (transformData opts = d)"
| "keeps_transformData d RunEffect = True"
| "keeps_transformData d (Settle i) = True"
| "keeps_transformData d (Call m) = True"
| "keeps_transformData d (CallReset i) = True"

text \<open>
  The data of the test-suite: items with a name and an age, transform data with the
  keys \<open>searchTerm\<close> and \<open>age\<close>, and the transformers \<open>bySearchTerm\<close>,
  \<open>byAge\<close>, \<open>byThrowError\<close>. \<open>byAsync\<close> is the asynchronous search written
  as an \<open>async\<close> function; \<open>asyncPredicate\<close> resolves to a predicate.
\<close>

datatype tval = Str string | Num nat

type_synonym TestData = "string \<times> nat"

definition testList :: "TestData list" where
  "testList = [(''bob'', 12), (''jess'', 42)]"

definition matchesSearchTerm :: "(string, tval) tdata \<Rightarrow> TestData \<Rightarrow> nat \<Rightarrow> bool" where
  "matchesSearchTerm d item i = (spread d ''searchTerm'' = Some (Str (fst item)))"

definition bySearchTerm :: "(TestData, string, tval, string) stage" where
  "bySearchTerm = Stage (\<lambda>p. Returns (Fun (matchesSearchTerm (p_data p))))"

definition byAge :: "(TestData, string, tval, string) stage" where
  "byAge =
     Stage (\<lambda>p. case p_list p of
                  Arr xs \<Rightarrow> Returns (Arr (filter (\<lambda>item. spread (p_data p) ''age'' = Some (Num (snd item))) xs))
                | Fun g \<Rightarrow> Throws TypeError)"

definition byThrowError :: "(TestData, string, tval, string) stage" where
  "byThrowError = Stage (\<lambda>p. Throws (Thrown ''error''))"

definition byAsync :: "(TestData, string, tval, string) stage" where
  "byAsync =
     Stage (\<lambda>p. case p_list p of
                  Arr xs \<Rightarrow> ReturnsPromise (Resolves (Arr
                    (filter (\<lambda>item. spread (p_data p) ''searchTerm'' = Some (Str (fst item))) xs)))
                | Fun g \<Rightarrow> ReturnsPromise (Rejects TypeError))"

definition isBob :: "TestData \<Rightarrow> nat \<Rightarrow> bool" where
  "isBob item i = (fst item = ''bob'')"

definition asyncPredicate :: "(TestData, string, tval, string) stage" where
  "asyncPredicate = Stage (\<lambda>p. ReturnsPromise (Resolves (Fun isBob)))"

definition searchBob :: "(string, tval) tdata" where
  "searchBob = DObj [''searchTerm'' \<mapsto> Str ''bob'']"

definition searchWrong :: "(string, tval) tdata" where
  "searchWrong = DObj [''searchTerm'' \<mapsto> Str ''bob@'']"

definition searchJess :: "(string, tval) tdata" where
  "searchJess = DObj [''searchTerm'' \<mapsto> Str ''jess'']"

definition searchBobAge :: "(string, tval) tdata" where
  "searchBobAge = DObj [''searchTerm'' \<mapsto> Str ''bob'', ''age'' \<mapsto> Num 12]"

definition optionsAsync :: "(TestData, string, tval, string) UseTransformOptions" where
  "optionsAsync =
     \<lparr>opt_list = testList, transformData = searchBob, transform = Many [byAsync],
      throwOnError = False\<rparr>"

definition optionsAsyncPredicate :: "(TestData, string, tval, string) UseTransformOptions" where
  "optionsAsyncPredicate =
     \<lparr>opt_list = testList, transformData = searchBob, transform = Single asyncPredicate,
      throwOnError = False\<rparr>"

definition optionsBob :: "(TestData, string, tval, string) UseTransformOptions" where
  "optionsBob =
     \<lparr>opt_list = testList, transformData = searchBob, transform = Many [bySearchTerm],
      throwOnError = False\<rparr>"

definition optionsJess :: "(TestData, string, tval, string) UseTransformOptions" where
  "optionsJess =
     \<lparr>opt_list = testList, transformData = searchJess, transform = Many [bySearchTerm],
      throwOnError = False\<rparr>"

definition optionsNoData :: "(TestData, string, tval, string) UseTransformOptions" where
  "optionsNoData =
     \<lparr>opt_list = testList, transformData = DUndefined, transform = Many [bySearchTerm, byAge],
      throwOnError = False\<rparr>"

definition optionsThrow :: "(TestData, string, tval, string) UseTransformOptions" where
  "optionsThrow =
     \<lparr>opt_list = testList, transformData = searchBob,
      transform = Many [bySearchTerm, byThrowError, byAge], throwOnError = False\<rparr>"

definition optionsThrowTest :: "(TestData, string, tval, string) UseTransformOptions" where
  "optionsThrowTest =
     \<lparr>opt_list = testList, transformData = DUndefined,
      transform = Many [byThrowError, byAge], throwOnError = True\<rparr>"

definition optionsNoTransform :: "(TestData, string, tval, string) UseTransformOptions" where
  "optionsNoTransform =
     \<lparr>opt_list = testList, transformData = searchBob, transform = Single StageUndefined,
      throwOnError = False\<rparr>"

text \<open>
  Two runs of the asynchronous search, as in the test that ignores the previous
  transform result: run A starts on mount and is suspended; the data is set to a term
  that matches nothing, the component renders again and run B starts.
\<close>

definition runA :: "(TestData, string, tval, string) run" where
  "runA = \<lparr>run_id = 1, run_data = searchBob, run_prev = DUndefined,
           awaited = Resolves (Arr [(''bob'', 12)]), rest = []\<rparr>"

definition runB :: "(TestData, string, tval, string) run" where
  "runB = \<lparr>run_id = 2, run_data = searchWrong, run_prev = searchBob,
           awaited = Resolves (Arr []), rest = []\<rparr>"

definition runP :: "(TestData, string, tval, string) run" where
  "runP = \<lparr>run_id = 1, run_data = searchBob, run_prev = DUndefined,
           awaited = Resolves (Fun isBob), rest = []\<rparr>"

definition hookA :: "(TestData, string, tval, string) hook" where
  "hookA = fst (mount optionsAsync DUndefined)"

definition hookB :: "(TestData, string, tval, string) hook" where
  "hookB = fst (transformList (rerender optionsAsync searchBob (setTransform searchWrong hookA)))"

definition systemA :: "(TestData, string, tval, string) system" where
  "systemA =
     exec [Call (SetData searchWrong), Render optionsAsync searchBob]
       (start optionsAsync DUndefined)"

text \<open>
  The test with \<open>byThrowError\<close>: mount without transform data, then
  \<open>setData({searchTerm: 'bob', age: 12})\<close>, a render, and the run it starts.
\<close>

definition afterFailedRun :: "(TestData, string, tval, string) hook" where
  "afterFailedRun =
     fst (transformList (rerender optionsThrowTest DUndefined
            (setTransform searchBobAge (fst (mount optionsThrowTest DUndefined)))))"

section \<open>Facts about the operations\<close>

lemmas example_defs = testList_def matchesSearchTerm_def bySearchTerm_def byAge_def
  byThrowError_def byAsync_def isBob_def asyncPredicate_def searchBob_def searchWrong_def
  searchJess_def searchBobAge_def optionsAsync_def optionsAsyncPredicate_def optionsBob_def
  optionsJess_def optionsNoData_def optionsThrow_def optionsThrowTest_def
  optionsNoTransform_def runA_def runB_def runP_def hookA_def hookB_def

lemmas op_defs = mount_def init_def rerender_def transformList_def resume_def setList_def
  setLoading_def setError_def setTransform_def updateTransform_def resetTransform_def
  dispatch_def notify_def isLatestTransform_def js_increment_def js_filter_def Let_def

lemma setList_stale: "transformListId h \<noteq> tid \<Longrightarrow> setList w tid h = h"
  by (simp add: setList_def isLatestTransform_def)

lemma setError_stale:
  "transformListId h \<noteq> tid \<Longrightarrow> setError ex tid h = notify (OnError ex) h"
  by (simp add: setError_def isLatestTransform_def notify_def Let_def)

lemma setError_current:
  "transformListId h = tid \<Longrightarrow> setError ex tid h =
     h\<lparr>calls := calls h @ [OnError ex],
       state := (state h)\<lparr>error := Some ex, list := None, loading := False\<rparr>\<rparr>"
  by (simp add: setError_def isLatestTransform_def notify_def dispatch_def Let_def)

lemma setLoading_eq:
  "setLoading b h =
     h\<lparr>calls := calls h @ [OnLoading b], state := (state h)\<lparr>loading := b, error := None\<rparr>\<rparr>"
  by (simp add: setLoading_def dispatch_def notify_def)

lemma counted_fields [simp]:
  "transformListId (counted t h) = transformListId h"
  "state (counted t h) = state h"
  "calls (counted t h) = calls h"
  "options (counted t h) = options h"
  by (cases t; simp)+

lemma setList_keeps [simp]:
  "options (setList w tid h) = options h"
  "transformListId (setList w tid h) = transformListId h"
  by (simp_all add: setList_def dispatch_def notify_def)

lemma setError_keeps [simp]:
  "options (setError ex tid h) = options h"
  "transformListId (setError ex tid h) = transformListId h"
  by (simp_all add: setError_def dispatch_def notify_def Let_def)

lemma setLoading_keeps [simp]:
  "options (setLoading b h) = options h"
  "transformListId (setLoading b h) = transformListId h"
  by (simp_all add: setLoading_def dispatch_def notify_def)

lemma loop_stale:
  "transformListId h \<noteq> tid \<Longrightarrow> loop tid d prev w ts h = (h, None)"
  by (cases ts) (simp_all add: setList_stale isLatestTransform_def)

lemma loop_keeps:
  "options (fst (loop tid d prev w ts h)) = options h
   \<and> transformListId (fst (loop tid d prev w ts h)) = transformListId h"
proof (induction ts arbitrary: w h)
  case Nil
  then show ?case by simp
next
  case (Cons t ts)
  have "options (fst (loop tid d prev w' ts (counted t h))) = options h
        \<and> transformListId (fst (loop tid d prev w' ts (counted t h))) = transformListId h" for w'
    using Cons.IH [of w' "counted t h"] by simp
  then show ?case
    by (simp add: Let_def split: outcome.splits jsval.splits)
qed

lemma loop_run_id: "snd (loop tid d prev w ts h) = Some r \<Longrightarrow> run_id r = tid"
proof (induction ts arbitrary: w h)
  case Nil
  then show ?case by simp
next
  case (Cons t ts)
  then show ?case
    by (auto simp: Let_def split: if_splits outcome.splits jsval.splits)
qed

lemma transformList_keeps:
  "options (fst (transformList h)) = options h"
  "transformListId (fst (transformList h)) = js_increment (transformListId h)"
  by (simp_all add: transformList_def Let_def loop_keeps)

lemma transformList_run_id:
  "snd (transformList h) = Some r \<Longrightarrow> run_id r = js_increment (transformListId h)"
  by (auto simp: transformList_def Let_def dest: loop_run_id split: if_splits)

lemma resume_keeps:
  "options (fst (resume r h)) = options h"
  "transformListId (fst (resume r h)) = transformListId h"
  by (simp_all add: resume_def loop_keeps split: settled.splits)

lemma resume_run_id: "snd (resume r h) = Some r' \<Longrightarrow> run_id r' = run_id r"
  by (auto simp: resume_def dest: loop_run_id split: settled.splits)

lemma mutate_keeps:
  "options (mutate m h) = options h"
  "transformListId (mutate m h) = transformListId h"
  by (cases m; simp add: setTransform_def updateTransform_def dispatch_def)+

lemma resetTransform_data: "data (state (resetTransform opts h)) = transformData opts"
  by (simp add: resetTransform_def dispatch_def)

subsection \<open>A prefix of synchronous stages\<close>

lemma sync_stages_counted:
  "sync_stages d prev w (t # ts) = Some w' \<Longrightarrow> counted t h = h\<lparr>stage_calls := stage_calls h + 1\<rparr>"
  by (cases t) simp_all

lemma loop_sync_prefix:
  "sync_stages d prev w pre = Some w' \<Longrightarrow> transformListId h = tid \<Longrightarrow>
   loop tid d prev w (pre @ ts) h
     = loop tid d prev w' ts (h\<lparr>stage_calls := stage_calls h + length pre\<rparr>)"
proof (induction pre arbitrary: w h)
  case Nil
  then show ?case by simp
next
  case (Cons t pre)
  have c: "counted t h = h\<lparr>stage_calls := stage_calls h + 1\<rparr>"
    using Cons.prems(1) by (rule sync_stages_counted)
  show ?case
  proof (cases "invoke t \<lparr>p_list = w, p_data = d, previousData = prev\<rparr>")
    case (Throws ex)
    with Cons.prems show ?thesis by simp
  next
    case (ReturnsPromise p)
    with Cons.prems show ?thesis by simp
  next
    case (Returns v)
    show ?thesis
    proof (cases v)
      case (Arr ys)
      with Returns Cons.prems have s: "sync_stages d prev (Arr ys) pre = Some w'" by simp
      have "loop tid d prev (Arr ys) (pre @ ts) (h\<lparr>stage_calls := stage_calls h + 1\<rparr>)
            = loop tid d prev w' ts (h\<lparr>stage_calls := stage_calls h + 1 + length pre\<rparr>)"
        using Cons.IH [OF s, of "h\<lparr>stage_calls := stage_calls h + 1\<rparr>"] Cons.prems(2) by simp
      with Arr Returns Cons.prems(2) c show ?thesis
        by (simp add: isLatestTransform_def add.commute add.left_commute)
    next
      case (Fun g)
      show ?thesis
      proof (cases w)
        case (Arr xs)
        with Fun Returns Cons.prems
        have s: "sync_stages d prev (Arr (js_filter g xs)) pre = Some w'" by simp
        have "loop tid d prev (Arr (js_filter g xs)) (pre @ ts) (h\<lparr>stage_calls := stage_calls h + 1\<rparr>)
              = loop tid d prev w' ts (h\<lparr>stage_calls := stage_calls h + 1 + length pre\<rparr>)"
          using Cons.IH [OF s, of "h\<lparr>stage_calls := stage_calls h + 1\<rparr>"] Cons.prems(2) by simp
        with Arr Fun Returns Cons.prems(2) c show ?thesis
          by (simp add: isLatestTransform_def add.commute add.left_commute)
      next
        case (Fun g')
        with \<open>v = Fun g\<close> Returns Cons.prems show ?thesis by simp
      qed
    qed
  qed
qed

lemma loop_sync_throw:
  assumes "transformListId h = tid"
    and "sync_stages d prev w pre = Some w'"
    and "invoke t \<lparr>p_list = w', p_data = d, previousData = prev\<rparr> = Throws ex"
  shows "loop tid d prev w (pre @ t # post) h =
           ((counted t h)\<lparr>stage_calls := stage_calls (counted t h) + length pre,
               calls := calls h @ [OnError ex],
               state := (state h)\<lparr>error := Some ex, list := None, loading := False\<rparr>\<rparr>, None)"
proof -
  let ?h = "h\<lparr>stage_calls := stage_calls h + length pre\<rparr>"
  have "loop tid d prev w (pre @ t # post) h = loop tid d prev w' (t # post) ?h"
    using assms(2,1) by (rule loop_sync_prefix)
  also have "\<dots> = (setError ex tid (counted t ?h), None)"
    using assms(1,3) by (simp add: isLatestTransform_def)
  finally show ?thesis
    using assms(1) by (cases t) (simp_all add: setError_current)
qed

subsection \<open>Filtering with an index\<close>

lemma filter_from_zip:
  "filter_from i g xs = map fst (filter (\<lambda>(x, j). g x j) (zip xs [i..<i + length xs]))"
proof (induction xs arbitrary: i)
  case Nil
  then show ?case by simp
next
  case (Cons x xs)
  have "[i..<i + length (x # xs)] = i # [Suc i..<Suc i + length xs]"
    by (subst upt_rec) simp
  then show ?case using Cons.IH [of "Suc i"] by simp
qed

lemma filter_from_no_index: "filter_from i (\<lambda>x j. q x) xs = filter q xs"
  by (induction xs arbitrary: i) simp_all

subsection \<open>Histories: identifiers only grow, suspended runs carry issued identifiers\<close>

lemma js_increment_mono: "n \<le> js_increment n"
  by (simp add: js_increment_def)

lemma step_id_mono: "transformListId (inst s) \<le> transformListId (inst (step e s))"
  by (cases e)
     (simp_all add: rerender_def transformList_keeps js_increment_mono resume_keeps mutate_keeps
        resetTransform_def dispatch_def)

lemma exec_id_mono: "transformListId (inst s) \<le> transformListId (inst (exec evs s))"
  unfolding exec_def
proof (induction evs arbitrary: s)
  case Nil
  then show ?case by simp
next
  case (Cons e evs)
  have "transformListId (inst s) \<le> transformListId (inst (step e s))"
    by (rule step_id_mono)
  also have "\<dots> \<le> transformListId (inst (fold step evs (step e s)))"
    by (rule Cons.IH)
  finally show ?case by simp
qed

lemma set_suspended: "r \<in> set (suspended x) \<longleftrightarrow> x = Some r"
  by (cases x) auto

lemma step_issued: "issued s \<Longrightarrow> issued (step e s)"
proof (cases e)
  case (Render opts prev)
  assume "issued s"
  with Render show ?thesis by (simp add: issued_def rerender_def)
next
  case RunEffect
  assume i: "issued s"
  have "list_all (\<lambda>r. run_id r \<le> js_increment (transformListId (inst s))) (pending s)"
    using i js_increment_mono [of "transformListId (inst s)"]
    by (auto simp: issued_def list_all_iff intro: order_trans)
  moreover have "run_id r \<le> js_increment (transformListId (inst s))"
    if "snd (transformList (inst s)) = Some r" for r
    using transformList_run_id [OF that] by simp
  ultimately show ?thesis
    using RunEffect
    by (auto simp: issued_def transformList_keeps list_all_iff set_suspended)
next
  case (Settle i)
  assume a: "issued s"
  show ?thesis
  proof (cases "i < length (pending s)")
    case False
    with Settle a show ?thesis by simp
  next
    case True
    have all: "\<And>r. r \<in> set (pending s) \<Longrightarrow> run_id r \<le> transformListId (inst s)"
      using a by (simp add: issued_def list_all_iff)
    have this_one: "run_id (pending s ! i) \<le> transformListId (inst s)"
      using all True by simp
    have "\<And>r. r \<in> set (take i (pending s)) \<Longrightarrow> run_id r \<le> transformListId (inst s)"
      using all by (auto dest: in_set_takeD)
    moreover have "\<And>r. r \<in> set (drop (Suc i) (pending s)) \<Longrightarrow> run_id r \<le> transformListId (inst s)"
      using all by (auto dest: in_set_dropD)
    moreover have "run_id r \<le> transformListId (inst s)"
      if "snd (resume (pending s ! i) (inst s)) = Some r" for r
      using resume_run_id [OF that] this_one by simp
    ultimately show ?thesis
      using Settle True
      by (auto simp: issued_def resume_keeps list_all_iff set_suspended)
  qed
next
  case (Call m)
  assume "issued s"
  with Call show ?thesis by (simp add: issued_def mutate_keeps)
next
  case (CallReset i)
  assume "issued s"
  with CallReset show ?thesis by (simp add: issued_def resetTransform_def dispatch_def)
qed

lemma exec_issued: "issued s \<Longrightarrow> issued (exec evs s)"
  unfolding exec_def by (induction evs arbitrary: s) (simp_all add: step_issued)

lemma start_issued: "issued (start opts prev)"
proof -
  have "run_id r \<le> js_increment (transformListId (init opts prev))"
    if "snd (transformList (init opts prev)) = Some r" for r
    using transformList_run_id [OF that] by simp
  then show ?thesis
    by (auto simp: issued_def start_def mount_def transformList_keeps list_all_iff set_suspended)
qed

lemma reachable_issued: "issued (exec evs (start opts prev))"
  by (rule exec_issued) (rule start_issued)

lemma newer_run_supersedes:
  assumes "issued s" and "r \<in> set (pending s)" and "transformListId (inst s) < 2 ^ 53"
  shows "run_id r < transformListId (inst (exec evs (step RunEffect s)))"
proof -
  have "run_id r \<le> transformListId (inst s)"
    using assms(1,2) by (simp add: issued_def list_all_iff)
  also have "\<dots> < transformListId (inst (step RunEffect s))"
    using assms(3) by (simp add: transformList_keeps js_increment_def)
  also have "\<dots> \<le> transformListId (inst (exec evs (step RunEffect s)))"
    by (rule exec_id_mono)
  finally show ?thesis .
qed

lemma step_keeps_transformData:
  "keeps_transformData d e \<Longrightarrow> list_all (\<lambda>opts. transformData opts = d) (rendered s) \<Longrightarrow>
   list_all (\<lambda>opts. transformData opts = d) (rendered (step e s))"
  by (cases e) simp_all

lemma exec_keeps_transformData:
  "list_all (keeps_transformData d) evs \<Longrightarrow>
   list_all (\<lambda>opts. transformData opts = d) (rendered s) \<Longrightarrow>
   list_all (\<lambda>opts. transformData opts = d) (rendered (exec evs s))"
  unfolding exec_def
  by (induction evs arbitrary: s) (simp_all add: step_keeps_transformData)

lemma start_rendered: "rendered (start opts prev) = [opts]"
  by (simp add: start_def)

lemma step_CallReset_data:
  "i < length (rendered s) \<Longrightarrow>
   data (state (inst (step (CallReset i) s))) = transformData (rendered s ! i)"
  by (simp add: resetTransform_data)

subsection \<open>The two runs of the asynchronous search\<close>

lemma mount_async: "mount optionsAsync DUndefined = (hookA, Some runA)"
  by (simp add: example_defs op_defs)

lemma hookA_eq:
  "hookA = \<lparr>state = \<lparr>data = searchBob, list = Some (Arr testList), loading = True, error = None\<rparr>,
            options = optionsAsync, transformListId = 1, transforms = [byAsync],
            prevTransformData = DUndefined, calls = [OnLoading True], stage_calls = 1\<rparr>"
  by (simp add: example_defs op_defs)

lemma second_run:
  "transformList (rerender optionsAsync searchBob (setTransform searchWrong hookA)) = (hookB, Some runB)"
  by (simp add: example_defs op_defs)

lemma hookB_id: "transformListId hookB = 2"
  by (simp add: example_defs op_defs)

lemma systemA_eq:
  "systemA = \<lparr>inst = rerender optionsAsync searchBob (setTransform searchWrong hookA),
              pending = [runA], rendered = [optionsAsync, optionsAsync]\<rparr>"
  by (simp add: systemA_def exec_def start_def mount_async)

lemma systemA_next:
  "step RunEffect systemA =
     \<lparr>inst = hookB, pending = [runA, runB], rendered = [optionsAsync, optionsAsync]\<rparr>"
  by (simp add: systemA_eq second_run)

text \<open>
  The later run decides the derived list whichever of the two promises settles
  first: the list is the empty result of run B in both orders.
\<close>

lemma latest_run_wins:
  "list (state (fst (resume runB (fst (resume runA hookB))))) = Some (Arr [])
   \<and> list (state (fst (resume runA (fst (resume runB hookB))))) = Some (Arr [])"
  by (simp add: example_defs op_defs)

text \<open>The scenario of the first test: search term, then age.\<close>

lemma search_then_age:
  "list (state (fst (mount
      \<lparr>opt_list = testList, transformData = searchBobAge,
       transform = Many [bySearchTerm, byAge], throwOnError = False\<rparr> DUndefined)))
     = Some (Arr [(''bob'', 12)])"
  by (simp add: example_defs op_defs)

text \<open>An empty pipeline with transform data present returns the source list.\<close>

lemma empty_pipeline_returns_source_list:
  assumes "transform opts = Many []" and "transformData opts = DObj m"
  shows "list (state (fst (mount opts prev))) = Some (Arr (opt_list opts))
       \<and> error (state (fst (mount opts prev))) = None"
  using assms by (simp add: op_defs)

lemma searchJess_neq: "searchJess \<noteq> searchBob"
proof
  assume "searchJess = searchBob"
  then have "[''searchTerm'' \<mapsto> Str ''jess''] ''searchTerm'' = [''searchTerm'' \<mapsto> Str ''bob''] ''searchTerm''"
    by (simp add: searchJess_def searchBob_def)
  then show False by simp
qed

section \<open>The staleness guard\<close>

text \<open>
  C1. A run whose identifier is not the current value of \<open>transformListId\<close> commits
  nothing: \<open>setList\<close> called with its identifier returns the hook unchanged, and
  resuming the run leaves the whole reducer state (the derived list in it) as it was,
  ends the run, and calls neither \<open>onLoading\<close> nor \<open>onListUpdate\<close> (the hook is
  unchanged on resolution; on rejection only \<open>onError\<close> is logged). Second part: in
  any history, once a newer run has begun (the effect after state \<open>s\<close>, with the
  counter below \<open>2^53\<close>), a run that was suspended in \<open>s\<close> leaves the state
  unchanged whenever it settles later, whatever happened in between: the order of the
  identifiers decides, not the order of completion.
\<close>

theorem stale_run_commits_nothing:
  "(transformListId h \<noteq> run_id r \<longrightarrow>
       setList w (run_id r) h = h
     \<and> state (fst (resume r h)) = state h
     \<and> snd (resume r h) = None
     \<and> fst (resume r h) =
         (case awaited r of Resolves v \<Rightarrow> h | Rejects ex \<Rightarrow> notify (OnError ex) h))
   \<and> (issued s \<and> r \<in> set (pending s) \<and> transformListId (inst s) < 2 ^ 53 \<longrightarrow>
       state (fst (resume r (inst (exec evs (step RunEffect s)))))
         = state (inst (exec evs (step RunEffect s))))"
proof (intro conjI impI)
  assume ne: "transformListId h \<noteq> run_id r"
  show "setList w (run_id r) h = h"
    using ne by (rule setList_stale)
  show "state (fst (resume r h)) = state h"
    using ne by (simp add: resume_def loop_stale setError_stale notify_def split: settled.splits)
  show "snd (resume r h) = None"
    using ne by (simp add: resume_def loop_stale split: settled.splits)
  show "fst (resume r h) =
         (case awaited r of Resolves v \<Rightarrow> h | Rejects ex \<Rightarrow> notify (OnError ex) h)"
    using ne by (simp add: resume_def loop_stale setError_stale split: settled.splits)
next
  let ?h = "inst (exec evs (step RunEffect s))"
  assume a: "issued s \<and> r \<in> set (pending s) \<and> transformListId (inst s) < 2 ^ 53"
  have "run_id r < transformListId ?h"
    by (rule newer_run_supersedes) (use a in blast)+
  then have ne: "transformListId ?h \<noteq> run_id r" by simp
  show "state (fst (resume r ?h)) = state ?h"
    using ne by (simp add: resume_def loop_stale setError_stale notify_def split: settled.splits)
qed

text \<open>
  Witness for C1: run A of the asynchronous search (identifier 1) after run B
  (identifier 2) has begun, settling after run B has settled.
\<close>

theorem stale_run_commits_nothing_witness:
  "transformListId hookB \<noteq> run_id runA
   \<and> setList (Arr [(''bob'', 12)]) (run_id runA) hookB = hookB
   \<and> state (fst (resume runA hookB)) = state hookB
   \<and> snd (resume runA hookB) = None
   \<and> fst (resume runA hookB) = hookB
   \<and> issued systemA \<and> runA \<in> set (pending systemA)
   \<and> transformListId (inst systemA) < 2 ^ 53
   \<and> state (fst (resume runA (inst (exec [Settle 1] (step RunEffect systemA)))))
        = state (inst (exec [Settle 1] (step RunEffect systemA)))"
proof -
  have ne: "transformListId hookB \<noteq> run_id runA"
    by (simp add: hookB_id runA_def)
  have i: "issued systemA"
    unfolding systemA_def by (rule reachable_issued)
  have p: "runA \<in> set (pending systemA)"
    by (simp add: systemA_eq)
  have b: "transformListId (inst systemA) < 2 ^ 53"
    by (simp add: systemA_eq rerender_def setTransform_def dispatch_def hookA_eq)
  show ?thesis
    using ne i p b
      stale_run_commits_nothing
        [where h = hookB and r = runA and w = "Arr [(''bob'', 12)]" and s = systemA
           and evs = "[Settle 1]"]
    by (simp add: runA_def)
qed

section \<open>Errors\<close>



text \<open>
  C7. A run that is current reaches, after a prefix of stages that return
  synchronously, a stage that throws \<open>ex\<close>: the run ends, the state has the error
  \<open>ex\<close>, the list \<open>null\<close> and the loading flag off, and the only callback call
  of that segment is one \<open>onError ex\<close>. For a run from its start the whole log is
  \<open>onLoading true\<close>, then \<open>onError ex\<close>.
\<close>

theorem sync_throw_sets_error:
  assumes "sync_stages d prev w pre = Some w'"
    and "invoke t \<lparr>p_list = w', p_data = d, previousData = prev\<rparr> = Throws ex"
  shows "(transformListId h = tid \<longrightarrow>
            snd (loop tid d prev w (pre @ t # post) h) = None
          \<and> error (state (fst (loop tid d prev w (pre @ t # post) h))) = Some ex
          \<and> list (state (fst (loop tid d prev w (pre @ t # post) h))) = None
          \<and> loading (state (fst (loop tid d prev w (pre @ t # post) h))) = False
          \<and> calls (fst (loop tid d prev w (pre @ t # post) h)) = calls h @ [OnError ex])
       \<and> (data (state h) = d \<and> \<not> is_nullish d \<and> prevTransformData h = prev
            \<and> w = Arr (opt_list (options h)) \<and> transforms h = pre @ t # post \<longrightarrow>
            snd (transformList h) = None
          \<and> error (state (fst (transformList h))) = Some ex
          \<and> list (state (fst (transformList h))) = None
          \<and> loading (state (fst (transformList h))) = False
          \<and> calls (fst (transformList h)) = calls h @ [OnLoading True, OnError ex])"
proof (intro conjI impI)
  assume "transformListId h = tid"
  note e = loop_sync_throw [OF this assms, of post]
  show "snd (loop tid d prev w (pre @ t # post) h) = None" by (simp add: e)
  show "error (state (fst (loop tid d prev w (pre @ t # post) h))) = Some ex" by (simp add: e)
  show "list (state (fst (loop tid d prev w (pre @ t # post) h))) = None" by (simp add: e)
  show "loading (state (fst (loop tid d prev w (pre @ t # post) h))) = False" by (simp add: e)
  show "calls (fst (loop tid d prev w (pre @ t # post) h)) = calls h @ [OnError ex]" by (simp add: e)
next
  assume a: "data (state h) = d \<and> \<not> is_nullish d \<and> prevTransformData h = prev
            \<and> w = Arr (opt_list (options h)) \<and> transforms h = pre @ t # post"
  let ?h2 = "setLoading True (h\<lparr>transformListId := js_increment (transformListId h)\<rparr>)"
  have id: "transformListId ?h2 = js_increment (transformListId h)"
    by (simp add: setLoading_eq)
  have tl: "transformList h =
              loop (js_increment (transformListId h)) d prev w (pre @ t # post) ?h2"
    using a by (simp add: transformList_def Let_def setLoading_eq)
  note e = loop_sync_throw [OF id assms, of post]
  show "snd (transformList h) = None" by (simp add: tl e)
  show "error (state (fst (transformList h))) = Some ex" by (simp add: tl e)
  show "list (state (fst (transformList h))) = None" by (simp add: tl e)
  show "loading (state (fst (transformList h))) = False" by (simp add: tl e)
  show "calls (fst (transformList h)) = calls h @ [OnLoading True, OnError ex]"
    by (simp add: tl e) (simp add: setLoading_eq)
qed

text \<open>
  Witness for C7: the pipeline \<open>[bySearchTerm, byThrowError, byAge]\<close> on mount with
  the search term \<open>bob\<close>.
\<close>

theorem sync_throw_sets_error_witness:
  "sync_stages searchBob DUndefined (Arr testList) [bySearchTerm] = Some (Arr [(''bob'', 12)])
   \<and> invoke byThrowError \<lparr>p_list = Arr [(''bob'', 12)], p_data = searchBob, previousData = DUndefined\<rparr>
       = Throws (Thrown ''error'')
   \<and> snd (mount optionsThrow DUndefined) = None
   \<and> error (state (fst (mount optionsThrow DUndefined))) = Some (Thrown ''error'')
   \<and> list (state (fst (mount optionsThrow DUndefined))) = None
   \<and> loading (state (fst (mount optionsThrow DUndefined))) = False
   \<and> calls (fst (mount optionsThrow DUndefined)) = [OnLoading True, OnError (Thrown ''error'')]"
proof -
  have s: "sync_stages searchBob DUndefined (Arr testList) [bySearchTerm] = Some (Arr [(''bob'', 12)])"
    by (simp add: example_defs js_filter_def)
  have t: "invoke byThrowError \<lparr>p_list = Arr [(''bob'', 12)], p_data = searchBob, previousData = DUndefined\<rparr>
       = Throws (Thrown ''error'')"
    by (simp add: byThrowError_def)
  show ?thesis
    using s t
      sync_throw_sets_error
        [OF s t, where h = "init optionsThrow DUndefined" and tid = 0 and post = "[byAge]"]
    by (simp add: mount_def) (simp add: init_def optionsThrow_def searchBob_def)
qed

text \<open>
  C10. With the \<open>transform\<close> option omitted and transform data present,
  \<open>toArray\<close> yields the one-element array holding \<open>undefined\<close>; on mount the run
  calls it, the \<open>TypeError\<close> is caught and committed (error set, list \<open>null\<close>,
  \<open>onError\<close> called), and the derived list is not the source list.
\<close>

theorem omitted_transform_commits_type_error:
  assumes "transform opts = Single StageUndefined" and "transformData opts = DObj m"
  shows "toArray (transform opts) = [StageUndefined]
       \<and> snd (mount opts prev) = None
       \<and> error (state (fst (mount opts prev))) = Some TypeError
       \<and> list (state (fst (mount opts prev))) = None
       \<and> list (state (fst (mount opts prev))) \<noteq> Some (Arr (opt_list opts))
       \<and> loading (state (fst (mount opts prev))) = False
       \<and> calls (fst (mount opts prev)) = [OnLoading True, OnError TypeError]
       \<and> stage_calls (fst (mount opts prev)) = 0"
  using assms by (simp add: op_defs)

text \<open>Witness for C10: the test list, a search term, and no \<open>transform\<close>.\<close>

theorem omitted_transform_commits_type_error_witness:
  "transform optionsNoTransform = Single StageUndefined
   \<and> transformData optionsNoTransform = searchBob
   \<and> toArray (transform optionsNoTransform) = [StageUndefined]
   \<and> error (state (fst (mount optionsNoTransform DUndefined))) = Some TypeError
   \<and> list (state (fst (mount optionsNoTransform DUndefined))) = None
   \<and> calls (fst (mount optionsNoTransform DUndefined)) = [OnLoading True, OnError TypeError]"
proof -
  have a: "transform optionsNoTransform = Single StageUndefined"
    by (simp add: optionsNoTransform_def)
  have b: "transformData optionsNoTransform = DObj [''searchTerm'' \<mapsto> Str ''bob'']"
    by (simp add: optionsNoTransform_def searchBob_def)
  show ?thesis
    using a b omitted_transform_commits_type_error [OF a b, of DUndefined]
    by (simp add: searchBob_def)
qed

section \<open>The pipeline\<close>

text \<open>
  C3, as the code has it. In a current run: a stage that returns a function makes the
  working list the previous list filtered by it, the function being called with the
  item and its index and the items kept exactly where it returns true (with a
  predicate of the item alone this is \<open>filter\<close>); a stage that returns an array
  makes that array the working list; a stage that returns a promise suspends the run
  with the remaining stages, and when the promise resolves to a value the loop goes on
  with that value as the working list as it is, with no test of whether it is a
  function. A stage that returns a predicate synchronously behaves as the stage that
  filters its list by that predicate itself.
\<close>

theorem stage_result_normalisation:
  assumes "transformListId h = tid"
  shows "(invoke t \<lparr>p_list = Arr xs, p_data = d, previousData = prev\<rparr> = Returns (Fun g) \<longrightarrow>
           loop tid d prev (Arr xs) (t # ts) h
             = loop tid d prev (Arr (js_filter g xs)) ts (counted t h))
       \<and> (invoke t \<lparr>p_list = w, p_data = d, previousData = prev\<rparr> = Returns (Arr ys) \<longrightarrow>
           loop tid d prev w (t # ts) h = loop tid d prev (Arr ys) ts (counted t h))
       \<and> (invoke t \<lparr>p_list = w, p_data = d, previousData = prev\<rparr> = ReturnsPromise p \<longrightarrow>
           loop tid d prev w (t # ts) h
             = (counted t h,
                Some \<lparr>run_id = tid, run_data = d, run_prev = prev, awaited = p, rest = ts\<rparr>))
       \<and> (invoke t \<lparr>p_list = w, p_data = d, previousData = prev\<rparr> = ReturnsPromise (Resolves v) \<longrightarrow>
           snd (loop tid d prev w (t # ts) h) \<noteq> None
           \<and> resume (the (snd (loop tid d prev w (t # ts) h))) h' = loop tid d prev v ts h')
       \<and> resume (r\<lparr>awaited := Resolves v\<rparr>) h
             = loop (run_id r) (run_data r) (run_prev r) v (rest r) h
       \<and> js_filter g xs = map fst (filter (\<lambda>(x, i). g x i) (zip xs [0..<length xs]))
       \<and> js_filter (\<lambda>x i. q x) xs = filter q xs
       \<and> loop tid d prev w (Stage (\<lambda>p. Returns (Fun (pred p))) # ts) h
           = loop tid d prev w
               (Stage (\<lambda>p. case p_list p of
                              Arr zs \<Rightarrow> Returns (Arr (js_filter (pred p) zs))
                            | Fun u \<Rightarrow> Throws TypeError) # ts) h"
  using assms filter_from_zip [of 0 g xs]
  by (cases w) (simp_all add: isLatestTransform_def resume_def js_filter_def filter_from_no_index)

text \<open>
  Witness for C3: \<open>bySearchTerm\<close> on the test list in the run started on mount, and
  \<open>byAsync\<close> in the same run: the loop suspends as run A, and run A resumed goes
  on with the resolved list.
\<close>

theorem stage_result_normalisation_witness:
  "transformListId hookA = 1
   \<and> invoke bySearchTerm \<lparr>p_list = Arr testList, p_data = searchBob, previousData = DUndefined\<rparr>
       = Returns (Fun (matchesSearchTerm searchBob))
   \<and> loop 1 searchBob DUndefined (Arr testList) [bySearchTerm] hookA
       = loop 1 searchBob DUndefined (Arr (js_filter (matchesSearchTerm searchBob) testList)) []
           (counted bySearchTerm hookA)
   \<and> js_filter (matchesSearchTerm searchBob) testList = [(''bob'', 12)]
   \<and> invoke byAsync \<lparr>p_list = Arr testList, p_data = searchBob, previousData = DUndefined\<rparr>
       = ReturnsPromise (Resolves (Arr [(''bob'', 12)]))
   \<and> loop 1 searchBob DUndefined (Arr testList) [byAsync] hookA
       = (counted byAsync hookA, Some runA)
   \<and> resume runA hookA = loop 1 searchBob DUndefined (Arr [(''bob'', 12)]) [] hookA
   \<and> list (state (fst (resume runA hookA))) = Some (Arr [(''bob'', 12)])"
proof -
  have i: "transformListId hookA = 1" by (simp add: hookA_eq)
  have f: "js_filter (matchesSearchTerm searchBob) testList = [(''bob'', 12)]"
    by (simp add: js_filter_def matchesSearchTerm_def searchBob_def testList_def)
  have a: "invoke byAsync \<lparr>p_list = Arr testList, p_data = searchBob, previousData = DUndefined\<rparr>
       = ReturnsPromise (Resolves (Arr [(''bob'', 12)]))"
    by (simp add: byAsync_def searchBob_def testList_def)
  have b: "invoke bySearchTerm \<lparr>p_list = Arr testList, p_data = searchBob, previousData = DUndefined\<rparr>
       = Returns (Fun (matchesSearchTerm searchBob))"
    by (simp add: bySearchTerm_def)
  note n1 = stage_result_normalisation
        [OF i, where t = bySearchTerm and xs = testList and d = searchBob and prev = DUndefined
           and g = "matchesSearchTerm searchBob" and ts = "[]"]
  note n2 = stage_result_normalisation
        [OF i, where t = byAsync and w = "Arr testList" and d = searchBob and prev = DUndefined
           and p = "Resolves (Arr [(''bob'', 12)])" and v = "Arr [(''bob'', 12)]" and ts = "[]"
           and h' = hookA]
  have c1: "loop 1 searchBob DUndefined (Arr testList) [bySearchTerm] hookA
       = loop 1 searchBob DUndefined (Arr (js_filter (matchesSearchTerm searchBob) testList)) []
           (counted bySearchTerm hookA)"
    by (rule n1 [THEN conjunct1, THEN mp, OF b])
  have c2: "loop 1 searchBob DUndefined (Arr testList) [byAsync] hookA
       = (counted byAsync hookA, Some runA)"
    using n2 [THEN conjunct2, THEN conjunct2, THEN conjunct1, THEN mp, OF a]
    by (simp add: runA_def)
  have "resume (the (snd (loop 1 searchBob DUndefined (Arr testList) [byAsync] hookA))) hookA
       = loop 1 searchBob DUndefined (Arr [(''bob'', 12)]) [] hookA"
    by (rule n2 [THEN conjunct2, THEN conjunct2, THEN conjunct2, THEN conjunct1, THEN mp,
                 OF a, THEN conjunct2])
  then have c3: "resume runA hookA = loop 1 searchBob DUndefined (Arr [(''bob'', 12)]) [] hookA"
    unfolding c2 by (simp only: snd_conv option.sel)
  have l: "list (state (fst (resume runA hookA))) = Some (Arr [(''bob'', 12)])"
    by (simp add: c3) (simp add: hookA_eq setList_def isLatestTransform_def dispatch_def notify_def)
  show ?thesis
    by (intro conjI) (rule i b c1 f a c2 c3 l)+
qed

text \<open>
  Counterexample to C3 as stated: a single stage whose promise resolves to the
  predicate \<open>isBob\<close>. The run mounted on the test list is suspended; when the
  promise resolves, the predicate itself is committed as the derived list, not the
  test list filtered by it.
\<close>

theorem async_predicate_not_filtered:
  "mount optionsAsyncPredicate DUndefined = (fst (mount optionsAsyncPredicate DUndefined), Some runP)
   \<and> list (state (fst (resume runP (fst (mount optionsAsyncPredicate DUndefined))))) = Some (Fun isBob)
   \<and> js_filter isBob testList = [(''bob'', 12)]
   \<and> list (state (fst (resume runP (fst (mount optionsAsyncPredicate DUndefined)))))
        \<noteq> Some (Arr (js_filter isBob testList))"
  by (simp add: example_defs op_defs)

text \<open>
  C6. When \<open>state.data\<close> is \<open>undefined\<close> or \<open>null\<close>, \<open>transformList\<close> takes
  the next identifier, and under it commits the source list: the derived list is
  \<open>options.list\<close>, loading is off, the callbacks are \<open>onLoading true\<close>,
  \<open>onLoading false\<close>, \<open>onListUpdate\<close> with the source list; no run stays
  suspended and no stage function is called, whatever the pipeline is.
\<close>

theorem absent_data_commits_source_list:
  assumes "data (state h) = DUndefined \<or> data (state h) = DNull"
  shows "transformList h =
           (h\<lparr>transformListId := js_increment (transformListId h),
              calls := calls h @ [OnLoading True, OnLoading False,
                                  OnListUpdate (Arr (opt_list (options h)))],
              state := (state h)\<lparr>list := Some (Arr (opt_list (options h))),
                                 loading := False, error := None\<rparr>\<rparr>, None)
         \<and> stage_calls (fst (transformList h)) = stage_calls h"
  using assms
  by (auto simp: transformList_def Let_def setLoading_def setList_def isLatestTransform_def
        dispatch_def notify_def)

text \<open>
  Witness for C6: mount with the pipeline \<open>[bySearchTerm, byAge]\<close> and no
  \<open>transformData\<close>.
\<close>

theorem absent_data_commits_source_list_witness:
  "data (state (init optionsNoData DUndefined)) = DUndefined
   \<and> list (state (fst (mount optionsNoData DUndefined))) = Some (Arr testList)
   \<and> calls (fst (mount optionsNoData DUndefined))
       = [OnLoading True, OnLoading False, OnListUpdate (Arr testList)]
   \<and> stage_calls (fst (mount optionsNoData DUndefined)) = 0
   \<and> snd (mount optionsNoData DUndefined) = None"
proof -
  have d: "data (state (init optionsNoData DUndefined)) = DUndefined
           \<or> data (state (init optionsNoData DUndefined)) = DNull"
    by (simp add: init_def optionsNoData_def)
  show ?thesis
    using absent_data_commits_source_list [OF d]
    by (simp add: mount_def) (simp add: init_def optionsNoData_def)
qed

section \<open>The loading callback\<close>

text \<open>
  C9, at the input of the test with \<open>byThrowError\<close>. The second run fails while it
  is current: the log ends with \<open>onLoading true\<close>, \<open>onError\<close>; the state has the
  error and the loading flag off, yet \<open>onLoading false\<close> is not called for this
  run. \<open>setList\<close> calls \<open>onLoading(false)\<close> before it dispatches; \<open>setError\<close>
  does not.
\<close>

theorem failed_run_never_signals_loading_off:
  "calls afterFailedRun =
     [OnLoading True, OnLoading False, OnListUpdate (Arr testList),
      OnLoading True, OnError (Thrown ''error'')]
   \<and> error (state afterFailedRun) = Some (Thrown ''error'')
   \<and> loading (state afterFailedRun) = False
   \<and> transformListId afterFailedRun = 2"
  by (simp add: afterFailedRun_def example_defs op_defs)

section \<open>The state container\<close>

text \<open>
  C4, as the code has it. A \<open>resetData\<close> handle stores the \<open>transformData\<close>
  option of the render that created it, and changes nothing else. After any history
  in which every render passes the same \<open>transformData\<close> as the mount did
  (whatever \<open>setData\<close>, \<open>updateData\<close>, \<open>resetData\<close> calls, runs and
  settlements it holds), every handle stores the initial value. After a render with
  other options, the handle that render returns stores the value of those options,
  and a handle kept from an earlier render stores the value of the earlier render.
\<close>

theorem reset_restores_option_of_its_render:
  "resetTransform opts h = h\<lparr>state := (state h)\<lparr>data := transformData opts\<rparr>\<rparr>
   \<and> (list_all (keeps_transformData (transformData opts)) evs
        \<and> i < length (rendered (exec evs (start opts prev))) \<longrightarrow>
        data (state (inst (step (CallReset i) (exec evs (start opts prev))))) = transformData opts)
   \<and> data (state (inst (step (CallReset (length (rendered s))) (step (Render opts' prev') s))))
        = transformData opts'
   \<and> (j < length (rendered s) \<longrightarrow>
        data (state (inst (step (CallReset j) (step (Render opts' prev') s))))
          = transformData (rendered s ! j))"
proof (intro conjI impI)
  show "resetTransform opts h = h\<lparr>state := (state h)\<lparr>data := transformData opts\<rparr>\<rparr>"
    by (simp add: resetTransform_def dispatch_def)
next
  let ?s = "exec evs (start opts prev)"
  assume a: "list_all (keeps_transformData (transformData opts)) evs \<and> i < length (rendered ?s)"
  then have "list_all (keeps_transformData (transformData opts)) evs" by simp
  then have "list_all (\<lambda>o'. transformData o' = transformData opts) (rendered ?s)"
    by (rule exec_keeps_transformData) (simp add: start_rendered)
  with a have same: "transformData (rendered ?s ! i) = transformData opts"
    by (simp add: list_all_length)
  have "data (state (inst (step (CallReset i) ?s))) = transformData (rendered ?s ! i)"
    using a by (intro step_CallReset_data) simp
  then show "data (state (inst (step (CallReset i) ?s))) = transformData opts"
    using same by (rule trans)
next
  show "data (state (inst (step (CallReset (length (rendered s))) (step (Render opts' prev') s))))
        = transformData opts'"
    by (simp add: resetTransform_data)
next
  assume "j < length (rendered s)"
  then show "data (state (inst (step (CallReset j) (step (Render opts' prev') s))))
          = transformData (rendered s ! j)"
    by (simp add: resetTransform_data nth_append)
qed

text \<open>
  Witness for C4: mount with the search term \<open>bob\<close>, set other data, render with
  the same options, run, merge an age, then call the handle of the second render.
\<close>

theorem reset_restores_option_of_its_render_witness:
  "list_all (keeps_transformData (transformData optionsBob))
     [Call (SetData searchWrong), Render optionsBob searchBob, RunEffect,
      Call (UpdateData searchBobAge)]
   \<and> 1 < length (rendered (exec
        [Call (SetData searchWrong), Render optionsBob searchBob, RunEffect,
         Call (UpdateData searchBobAge)] (start optionsBob DUndefined)))
   \<and> data (state (inst (step (CallReset 1) (exec
        [Call (SetData searchWrong), Render optionsBob searchBob, RunEffect,
         Call (UpdateData searchBobAge)] (start optionsBob DUndefined))))) = searchBob"
proof -
  let ?evs = "[Call (SetData searchWrong), Render optionsBob searchBob, RunEffect,
      Call (UpdateData searchBobAge)]"
  have k: "list_all (keeps_transformData (transformData optionsBob)) ?evs"
    by simp
  have l: "1 < length (rendered (exec ?evs (start optionsBob DUndefined)))"
    by (simp add: exec_def start_def)
  have t: "transformData optionsBob = searchBob"
    by (simp add: optionsBob_def)
  have "data (state (inst (step (CallReset 1) (exec ?evs (start optionsBob DUndefined)))))
          = transformData optionsBob"
    using k l reset_restores_option_of_its_render
      [where opts = optionsBob and prev = DUndefined and evs = ?evs and i = 1]
    by blast
  with k l t show ?thesis by simp
qed

text \<open>
  Counterexample to C4 as stated: the hook is mounted with the search term \<open>bob\<close>
  as \<open>transformData\<close>, rendered again with the search term \<open>jess\<close>, data is set,
  and the \<open>resetData\<close> handle of that second render is called. The transform data
  is then the term \<open>jess\<close>, not the initial \<open>bob\<close>.
\<close>

theorem reset_after_option_change:
  "transformData optionsBob = searchBob
   \<and> data (state (inst (exec [Render optionsJess searchBob, Call (SetData searchWrong), CallReset 1]
        (start optionsBob DUndefined)))) = searchJess
   \<and> searchJess \<noteq> searchBob"
  using searchJess_neq
  by (simp add: exec_def start_def resetTransform_data optionsBob_def optionsJess_def)

text \<open>
  The handle of the first render, called after the same history, resets to \<open>bob\<close>:
  a handle keeps the options of its own render.
\<close>

lemma kept_handle_resets_to_its_render:
  "data (state (inst (exec [Render optionsJess searchBob, Call (SetData searchWrong), CallReset 0]
        (start optionsBob DUndefined)))) = searchBob"
  by (simp add: exec_def start_def resetTransform_data optionsBob_def)

text \<open>
  C5. \<open>updateData(p)\<close> on a hook whose transform data is the record \<open>d\<close>
  leaves a hook that differs only in the transform data, which is the shallow merge:
  a key of \<open>p\<close> has the value \<open>p\<close> gives it (overwritten or added), every other
  key keeps what it had in \<open>d\<close> (and stays absent when it was absent). The same
  holds of the call as an event of a history, and of the \<open>UPDATE_DATA\<close> case of
  the reducer.
\<close>

theorem update_data_shallow_merge:
  "updateTransform (DObj p) (h\<lparr>state := s\<lparr>data := DObj d\<rparr>\<rparr>)
     = h\<lparr>state := s\<lparr>data := DObj (\<lambda>k. case p k of Some v \<Rightarrow> Some v | None \<Rightarrow> d k)\<rparr>\<rparr>
   \<and> data (state (updateTransform (DObj p) (h\<lparr>state := s\<lparr>data := DObj d\<rparr>\<rparr>)))
     = DObj (\<lambda>k. case p k of Some v \<Rightarrow> Some v | None \<Rightarrow> d k)
   \<and> inst (step (Call (UpdateData (DObj p))) (sys\<lparr>inst := h\<lparr>state := s\<lparr>data := DObj d\<rparr>\<rparr>\<rparr>))
     = h\<lparr>state := s\<lparr>data := DObj (\<lambda>k. case p k of Some v \<Rightarrow> Some v | None \<Rightarrow> d k)\<rparr>\<rparr>
   \<and> data (transformReducer (s\<lparr>data := DObj d\<rparr>) (UPDATE_DATA (DObj p)))
     = DObj (\<lambda>k. case p k of Some v \<Rightarrow> Some v | None \<Rightarrow> d k)
   \<and> list (transformReducer (s\<lparr>data := DObj d\<rparr>) (UPDATE_DATA (DObj p))) = list s
   \<and> loading (transformReducer (s\<lparr>data := DObj d\<rparr>) (UPDATE_DATA (DObj p))) = loading s
   \<and> error (transformReducer (s\<lparr>data := DObj d\<rparr>) (UPDATE_DATA (DObj p))) = error s"
proof -
  have m: "d ++ p = (\<lambda>k. case p k of Some v \<Rightarrow> Some v | None \<Rightarrow> d k)"
    by (auto simp: map_add_def fun_eq_iff split: option.splits)
  show ?thesis
    by (simp add: updateTransform_def dispatch_def m)
qed

text \<open>
  C8. \<open>SET_LOADING\<close> stores its payload in the loading flag and clears the error,
  for the payload \<open>False\<close> as for \<open>True\<close>; the list and the data are kept.
\<close>

theorem set_loading_clears_error:
  "loading (transformReducer s (SET_LOADING b)) = b
   \<and> error (transformReducer s (SET_LOADING b)) = None
   \<and> error (transformReducer (s\<lparr>error := Some e\<rparr>) (SET_LOADING False)) = None
   \<and> list (transformReducer s (SET_LOADING b)) = list s
   \<and> data (transformReducer s (SET_LOADING b)) = data s"
  by simp

end
